theory Spec2Isabelle
  imports Complex_Main "HOL-Library.Word"
begin

section \<open>JavaScript strings and values\<close>

text \<open>
  A JavaScript string is a sequence of UTF-16 code units. ASCII literals of the source
  are written \<open>js ''...''\<close>; the three non-ASCII characters of \<open>Chat.jsx\<close> (U+26A0, U+2714,
  U+274C) are single code units each.
\<close>

type_synonym jsstring = "16 word list"

definition js :: "string \<Rightarrow> jsstring" where
  "js s = map (\<lambda>c. word_of_nat (of_char c)) s"

text \<open>
  \<open>String.prototype.trim\<close> removes WhiteSpace and LineTerminator code points from both
  ends (ECMAScript: TAB, LF, VT, FF, CR, the space separators of Unicode, LS, PS and the
  byte order mark).
\<close>

definition isWhiteSpace :: "16 word \<Rightarrow> bool" where
  "isWhiteSpace c \<longleftrightarrow>
     c = 0x09 \<or> c = 0x0A \<or> c = 0x0B \<or> c = 0x0C \<or> c = 0x0D \<or> c = 0x20 \<or> c = 0xA0 \<or>
     c = 0x1680 \<or> (0x2000 \<le> c \<and> c \<le> 0x200A) \<or> c = 0x2028 \<or> c = 0x2029 \<or>
     c = 0x202F \<or> c = 0x205F \<or> c = 0x3000 \<or> c = 0xFEFF"

definition trim :: "jsstring \<Rightarrow> jsstring" where
  "trim s = rev (dropWhile isWhiteSpace (rev (dropWhile isWhiteSpace s)))"

text \<open>\<open>text.replace(/[#*_]/g, '')\<close>: every \<open>#\<close>, \<open>*\<close> and \<open>_\<close> is deleted.\<close>

definition stripMarkdown :: "jsstring \<Rightarrow> jsstring" where
  "stripMarkdown s = filter (\<lambda>c. c \<noteq> 0x23 \<and> c \<noteq> 0x2A \<and> c \<noteq> 0x5F) s"

text \<open>
  The values a parsed JSON body can hold. A number is an IEEE double: not-a-number, an
  infinity (JSON.parse gives one for an overflowing literal) or a finite value, which is
  a rational; only its truthiness matters here.
\<close>

datatype jsnum = NaN | PosInfinity | NegInfinity | Finite rat

datatype jsval =
    JUndefined
  | JNull
  | JBool bool
  | JNum jsnum
  | JStr jsstring
  | JArr "jsval list"
  | JObj "(jsstring \<times> jsval) list"

text \<open>ToBoolean, as \<open>||\<close> and \<open>!\<close> apply it.\<close>

fun truthy :: "jsval \<Rightarrow> bool" where
  "truthy JUndefined = False"
| "truthy JNull = False"
| "truthy (JBool b) = b"
| "truthy (JNum n) = (n \<noteq> NaN \<and> n \<noteq> Finite 0)"
| "truthy (JStr s) = (s \<noteq> [])"
| "truthy (JArr xs) = True"
| "truthy (JObj kvs) = True"

text \<open>
  \<open>v.name\<close> for a property name that no built-in prototype defines (here \<open>candidates\<close>,
  \<open>content\<close>, \<open>parts\<close> and \<open>text\<close>): an object answers with its own property, every other
  value that is not null or undefined with \<open>undefined\<close>.
\<close>

fun getNamed :: "jsval \<Rightarrow> jsstring \<Rightarrow> jsval" where
  "getNamed (JObj kvs) k = (case map_of kvs k of Some v \<Rightarrow> v | None \<Rightarrow> JUndefined)"
| "getNamed v k = JUndefined"

text \<open>
  \<open>v[0]\<close>: the first element of an array, the first code unit of a string, the property
  \<open>"0"\<close> of an object; \<open>undefined\<close> when there is none.
\<close>

fun getFirst :: "jsval \<Rightarrow> jsval" where
  "getFirst (JArr xs) = (case xs of [] \<Rightarrow> JUndefined | x # _ \<Rightarrow> x)"
| "getFirst (JStr s) = (case s of [] \<Rightarrow> JUndefined | c # _ \<Rightarrow> JStr [c])"
| "getFirst (JObj kvs) = (case map_of kvs (js ''0'') of Some v \<Rightarrow> v | None \<Rightarrow> JUndefined)"
| "getFirst v = JUndefined"

text \<open>Optional chaining: \<open>v?.name\<close> and \<open>v?.[0]\<close> are \<open>undefined\<close> on null and undefined.\<close>

definition nullish :: "jsval \<Rightarrow> bool" where
  "nullish v \<longleftrightarrow> v = JUndefined \<or> v = JNull"

definition optNamed :: "jsval \<Rightarrow> jsstring \<Rightarrow> jsval" where
  "optNamed v k = (if nullish v then JUndefined else getNamed v k)"

definition optFirst :: "jsval \<Rightarrow> jsval" where
  "optFirst v = (if nullish v then JUndefined else getFirst v)"

section \<open>The session state of \<open>BusinessChatBox\<close>\<close>

text \<open>A message of the history: \<open>{ role, content }\<close>.\<close>

record message =
  role :: jsstring
  content :: jsval

text \<open>
  The browser's speech recognition object, as far as the component drives it: the two
  options set at mount and whether a session is started. \<open>start()\<close> on a started
  recognition throws; \<open>stop()\<close> never does.
\<close>

datatype exn = TypeError | InvalidStateError | AxiosNetworkError | AxiosBadStatus nat

record speechRecognition =
  continuous :: bool
  interimResults :: bool
  started :: bool

definition recognition_start :: "speechRecognition \<Rightarrow> exn + speechRecognition" where
  "recognition_start r = (if started r then Inl InvalidStateError else Inr (r\<lparr>started := True\<rparr>))"

definition recognition_stop :: "speechRecognition \<Rightarrow> speechRecognition" where
  "recognition_stop r = r\<lparr>started := False\<rparr>"

text \<open>
  The browser's speech synthesis object: its queue of utterances, the head being the one
  spoken. \<open>speaking\<close> is true while the queue is not empty, \<open>cancel()\<close> empties the
  queue and \<open>speak(u)\<close> appends to it.
\<close>

datatype utterance = SpeechSynthesisUtterance jsstring

record speechSynthesis =
  utterances :: "utterance list"

definition speaking :: "speechSynthesis \<Rightarrow> bool" where
  "speaking y \<longleftrightarrow> utterances y \<noteq> []"

definition cancel :: "speechSynthesis \<Rightarrow> speechSynthesis" where
  "cancel y = y\<lparr>utterances := []\<rparr>"

definition speak :: "utterance \<Rightarrow> speechSynthesis \<Rightarrow> speechSynthesis" where
  "speak u y = y\<lparr>utterances := utterances y @ [u]\<rparr>"

text \<open>What the component does to the outside, in order: alerts, console output, HTTP requests.\<close>

datatype logged = LoggedExn exn | LoggedStr jsstring

datatype effect =
    Alert jsstring
  | ConsoleError jsstring logged
  | HttpPost jsstring jsval

text \<open>
  A request that was posted and has not settled yet. Its continuation (the rest of
  \<open>sendMessage\<close> after \<open>await\<close>) holds \<open>newMessages\<close> in its closure.
\<close>

record pending =
  newMessages :: "message list"

text \<open>
  The five \<open>useState\<close> cells, the two refs, the API key of the build environment
  (\<open>None\<close> when the variable is not set), and the trace of effects and requests in flight.
\<close>

record session =
  messages :: "message list"
  input :: jsstring
  loading :: bool
  isListening :: bool
  isSpeaking :: bool
  recognitionRef :: "speechRecognition option"
  speechSynthesisRef :: "speechSynthesis option"
  GEMINI_API_KEY :: "jsstring option"
  effects :: "effect list"
  inflight :: "pending list"

definition SYSTEM_PROMPT :: jsstring where
  "SYSTEM_PROMPT =
     js ''You are a business strategy assistant.'' @ [0x0A] @
     js ''You must:'' @ [0x0A] @
     [0x2714] @ js '' Provide data-driven business insights'' @ [0x0A] @
     [0x2714] @ js '' Generate strategic plans and recommendations'' @ [0x0A] @
     [0x2714] @ js '' Focus on trends, opportunities, risks, and KPIs'' @ [0x0A] @
     [0x2714] @ js '' Tailor responses for startups, SMEs, or large enterprises'' @ [0x0A] @
     [0x0A] @
     js ''You must NOT:'' @ [0x0A] @
     [0x274C] @ js '' Answer unrelated questions'' @ [0x0A] @
     [0x274C] @ js '' Provide non-business content'' @ [0x0A] @
     [0x0A] @
     js ''Respond strictly within business analysis, management, growth, and operational strategy.''"

text \<open>
  Mount: the state cells start empty and false; the first effect creates the recognition
  object when the window offers one, and \<open>useRef(window.speechSynthesis)\<close> holds the
  synthesis object when there is one. The component is taken to start with a silent
  synthesis queue.
\<close>

record window =
  hasSpeechRecognition :: bool
  hasSpeechSynthesis :: bool
  VITE_GEMINI_API_KEY :: "jsstring option"

definition mount :: "window \<Rightarrow> session" where
  "mount w =
     \<lparr>messages = [], input = [], loading = False, isListening = False, isSpeaking = False,
      recognitionRef =
        (if hasSpeechRecognition w
         then Some \<lparr>continuous = True, interimResults = True, started = False\<rparr>
         else None),
      speechSynthesisRef = (if hasSpeechSynthesis w then Some \<lparr>utterances = []\<rparr> else None),
      GEMINI_API_KEY = VITE_GEMINI_API_KEY w,
      effects = [], inflight = []\<rparr>"

section \<open>Speech input\<close>

text \<open>
  A recognition result event: \<open>event.results\<close> is a list of results, each a list of
  alternatives with a transcript. \<open>result[0].transcript\<close> throws a TypeError on a result
  without alternatives.
\<close>

record alternative =
  transcript :: jsstring
  confidence :: rat

fun transcripts :: "alternative list list \<Rightarrow> exn + jsstring list" where
  "transcripts [] = Inr []"
| "transcripts (result # results) =
     (case result of
        [] \<Rightarrow> Inl TypeError
      | a # _ \<Rightarrow> (case transcripts results of Inl e \<Rightarrow> Inl e | Inr ts \<Rightarrow> Inr (transcript a # ts)))"

definition onresult :: "alternative list list \<Rightarrow> session \<Rightarrow> exn + session" where
  "onresult results s =
     (case transcripts results of
        Inl e \<Rightarrow> Inl e
      | Inr ts \<Rightarrow> Inr (s\<lparr>input := concat ts\<rparr>))"

definition onerror :: "jsstring \<Rightarrow> session \<Rightarrow> session" where
  "onerror err s =
     s\<lparr>effects := effects s @ [ConsoleError (js ''Speech recognition error'') (LoggedStr err)],
       isListening := False\<rparr>"

definition toggleListening :: "session \<Rightarrow> exn + session" where
  "toggleListening s =
     (case recognitionRef s of
        None \<Rightarrow>
          Inr (s\<lparr>effects := effects s @
                 [Alert (js ''Speech recognition is not supported in your browser.'')]\<rparr>)
      | Some r \<Rightarrow>
          if isListening s
          then Inr (s\<lparr>recognitionRef := Some (recognition_stop r), isListening := False\<rparr>)
          else (case recognition_start r of
                  Inl e \<Rightarrow> Inl e
                | Inr r' \<Rightarrow> Inr (s\<lparr>recognitionRef := Some r', isListening := True\<rparr>)))"

section \<open>Speech output\<close>

definition speakText :: "jsstring \<Rightarrow> session \<Rightarrow> session" where
  "speakText txt s =
     (case speechSynthesisRef s of
        None \<Rightarrow>
          s\<lparr>effects := effects s @
               [Alert (js ''Speech synthesis is not supported in your browser.'')]\<rparr>
      | Some y \<Rightarrow>
          let y1 = (if speaking y then cancel y else y);
              utterance = SpeechSynthesisUtterance txt
          in s\<lparr>isSpeaking := True, speechSynthesisRef := Some (speak utterance y1)\<rparr>)"

definition stopSpeaking :: "session \<Rightarrow> session" where
  "stopSpeaking s =
     (case speechSynthesisRef s of
        None \<Rightarrow> s
      | Some y \<Rightarrow>
          if speaking y
          then s\<lparr>speechSynthesisRef := Some (cancel y), isSpeaking := False\<rparr>
          else s)"

text \<open>The handlers \<open>onend\<close> and \<open>onerror\<close> of every utterance.\<close>

definition utterance_onend :: "session \<Rightarrow> session" where
  "utterance_onend s = s\<lparr>isSpeaking := False\<rparr>"

text \<open>The cleanup of the mount effect, run at unmount.\<close>

definition cleanup :: "session \<Rightarrow> session" where
  "cleanup s =
     (let s1 = (case recognitionRef s of
                  None \<Rightarrow> s
                | Some r \<Rightarrow> s\<lparr>recognitionRef := Some (recognition_stop r)\<rparr>)
      in case speechSynthesisRef s1 of
           None \<Rightarrow> s1
         | Some y \<Rightarrow> if speaking y then s1\<lparr>speechSynthesisRef := Some (cancel y)\<rparr> else s1)"

section \<open>The inference request\<close>

text \<open>
  What \<open>axios.post\<close> is awaited for. With the default \<open>validateStatus\<close> the promise
  resolves on a status from 200 to 299 and rejects on any other status and when no
  response arrives; \<open>response.data\<close> is the parsed body.
\<close>

datatype transport = NetworkError | Response nat jsval

datatype outcome = Resolved jsval | Rejected exn

definition axios_settle :: "transport \<Rightarrow> outcome" where
  "axios_settle t =
     (case t of
        NetworkError \<Rightarrow> Rejected AxiosNetworkError
      | Response status data \<Rightarrow>
          if 200 \<le> status \<and> status < 300 then Resolved data else Rejected (AxiosBadStatus status))"

definition request_url :: "jsstring option \<Rightarrow> jsstring" where
  "request_url key =
     js ''https://generativelanguage.googleapis.com/v1beta/models/gemini-1.5-pro:generateContent?key=''
     @ (case key of None \<Rightarrow> js ''undefined'' | Some k \<Rightarrow> k)"

definition request_body :: "jsstring \<Rightarrow> jsval" where
  "request_body userMessage =
     JObj [(js ''contents'',
       JArr [JObj [(js ''role'', JStr (js ''user'')),
                   (js ''parts'',
                      JArr [JObj [(js ''text'',
                        JStr (SYSTEM_PROMPT @ [0x0A, 0x0A] @ userMessage @ js '' ''))]])]])]"

definition axios_post :: "jsstring \<Rightarrow> jsval \<Rightarrow> message list \<Rightarrow> session \<Rightarrow> session" where
  "axios_post url body msgs s =
     s\<lparr>effects := effects s @ [HttpPost url body],
       inflight := inflight s @ [\<lparr>newMessages = msgs\<rparr>]\<rparr>"

text \<open>
  \<open>sendMessage\<close> up to its \<open>await\<close>. \<open>toggleListening\<close> is called outside the
  \<open>try\<close>: were it to throw, the function would stop there, with the state already set.
\<close>

definition sendMessage :: "session \<Rightarrow> session" where
  "sendMessage s =
     (if trim (input s) = [] \<or> loading s then s
      else
        let userMessage = trim (input s);
            msgs = messages s @ [\<lparr>role = js ''user'', content = JStr userMessage\<rparr>];
            s1 = s\<lparr>messages := msgs, input := [], loading := True\<rparr>
        in case (if isListening s1 then toggleListening s1 else Inr s1) of
             Inl e \<Rightarrow> s1
           | Inr s2 \<Rightarrow>
               axios_post (request_url (GEMINI_API_KEY s2)) (request_body userMessage) msgs s2)"

text \<open>
  \<open>response?.data?.candidates?.[0]?.content?.parts?.[0]?.text || "\<dots> No response received."\<close>
\<close>

definition extractText :: "jsval \<Rightarrow> jsval" where
  "extractText data =
     optNamed (optFirst (optNamed (optNamed (optFirst (optNamed data (js ''candidates'')))
       (js ''content'')) (js ''parts''))) (js ''text'')"

definition noResponse :: jsstring where
  "noResponse = [0x26A0] @ js '' No response received.''"

definition botResponse :: "jsval \<Rightarrow> jsval" where
  "botResponse data = (let t = extractText data in if truthy t then t else JStr noResponse)"

definition errorMessage :: jsstring where
  "errorMessage =
     [0x26A0] @ js '' Failed to fetch response. Please check your API key or try again later.''"

text \<open>
  The \<open>try\<close> block after the \<open>await\<close>: the exception it ends with, if any, and the
  state it leaves. \<open>botResponse.replace\<close> is a function only when \<open>botResponse\<close> is a
  string, so the call throws a TypeError on any other value, after \<open>setMessages\<close>.
\<close>

definition sendMessage_try :: "message list \<Rightarrow> outcome \<Rightarrow> session \<Rightarrow> exn option \<times> session" where
  "sendMessage_try msgs out s =
     (case out of
        Rejected e \<Rightarrow> (Some e, s)
      | Resolved data \<Rightarrow>
          let b = botResponse data;
              s1 = s\<lparr>messages := msgs @ [\<lparr>role = js ''assistant'', content = b\<rparr>]\<rparr>
          in case b of
               JStr t \<Rightarrow> (None, speakText (stripMarkdown t) s1)
             | _ \<Rightarrow> (Some TypeError, s1))"

definition sendMessage_catch :: "message list \<Rightarrow> exn \<Rightarrow> session \<Rightarrow> session" where
  "sendMessage_catch msgs e s =
     speakText errorMessage
       (s\<lparr>effects := effects s @ [ConsoleError (js ''Gemini error:'') (LoggedExn e)],
          messages := msgs @ [\<lparr>role = js ''assistant'', content = JStr errorMessage\<rparr>]\<rparr>)"

definition sendMessage_finally :: "session \<Rightarrow> session" where
  "sendMessage_finally s = s\<lparr>loading := False\<rparr>"

definition sendMessage_resume :: "pending \<Rightarrow> outcome \<Rightarrow> session \<Rightarrow> session" where
  "sendMessage_resume p out s =
     (case sendMessage_try (newMessages p) out s of
        (None, s1) \<Rightarrow> sendMessage_finally s1
      | (Some e, s1) \<Rightarrow> sendMessage_finally (sendMessage_catch (newMessages p) e s1))"

text \<open>The oldest request in flight settles and its continuation runs.\<close>

definition settle :: "transport \<Rightarrow> session \<Rightarrow> session" where
  "settle t s =
     (case inflight s of
        [] \<Rightarrow> s
      | p # ps \<Rightarrow> sendMessage_resume p (axios_settle t) (s\<lparr>inflight := ps\<rparr>))"

definition handleKeyPress :: "jsstring \<Rightarrow> bool \<Rightarrow> session \<Rightarrow> session" where
  "handleKeyPress key shiftKey s =
     (if key = js ''Enter'' \<and> \<not> shiftKey then sendMessage s else s)"

section \<open>The event loop\<close>

text \<open>
  Every state change happens in one callback, run to its end (or to its \<open>await\<close>) on
  the state of the latest render. An exception that escapes a handler leaves the state as
  it was.
\<close>

datatype event =
    Change jsstring
  | KeyPress jsstring bool
  | ClickSend
  | ClickMic
  | ClickSpeaker nat
  | RecognitionResult "alternative list list"
  | RecognitionError jsstring
  | RecognitionEnd
  | UtteranceFinished
  | UtteranceCancelled
  | Settled transport

definition clickSpeaker :: "nat \<Rightarrow> session \<Rightarrow> session" where
  "clickSpeaker i s =
     (if i < length (messages s) \<and> role (messages s ! i) = js ''assistant''
      then if isSpeaking s then stopSpeaking s
           else (case content (messages s ! i) of
                   JStr t \<Rightarrow> speakText (stripMarkdown t) s
                 | _ \<Rightarrow> s)
      else s)"

fun step :: "event \<Rightarrow> session \<Rightarrow> session" where
  "step (Change v) s = s\<lparr>input := v\<rparr>"
| "step (KeyPress key shiftKey) s = handleKeyPress key shiftKey s"
| "step ClickSend s = sendMessage s"
| "step ClickMic s = (case toggleListening s of Inl e \<Rightarrow> s | Inr s' \<Rightarrow> s')"
| "step (ClickSpeaker i) s = clickSpeaker i s"
| "step (RecognitionResult results) s = (case onresult results s of Inl e \<Rightarrow> s | Inr s' \<Rightarrow> s')"
| "step (RecognitionError err) s = onerror err s"
| "step RecognitionEnd s = s\<lparr>recognitionRef := map_option recognition_stop (recognitionRef s)\<rparr>"
| "step UtteranceFinished s =
     (case speechSynthesisRef s of
        None \<Rightarrow> s
      | Some y \<Rightarrow>
          if speaking y
          then utterance_onend (s\<lparr>speechSynthesisRef := Some (y\<lparr>utterances := tl (utterances y)\<rparr>)\<rparr>)
          else s)"
| "step UtteranceCancelled s = utterance_onend s"
| "step (Settled t) s = settle t s"

text \<open>The HTTP requests among the effects, in the order they were issued.\<close>

fun posted :: "effect list \<Rightarrow> (jsstring \<times> jsval) list" where
  "posted [] = []"
| "posted (HttpPost url body # fx) = (url, body) # posted fx"
| "posted (_ # fx) = posted fx"

definition run :: "event list \<Rightarrow> session \<Rightarrow> session" where
  "run es s = fold step es s"

section \<open>Invariants and scenario data\<close>

text \<open>At most one request is in flight, and \<open>loading\<close> tells whether one is.\<close>

definition request_inv :: "session \<Rightarrow> bool" where
  "request_inv s \<longleftrightarrow> length (inflight s) \<le> 1 \<and> (loading s \<longleftrightarrow> inflight s \<noteq> [])"

text \<open>The synthesis queue holds at most one utterance.\<close>

definition synthesis_inv :: "session \<Rightarrow> bool" where
  "synthesis_inv s \<longleftrightarrow>
     (case speechSynthesisRef s of None \<Rightarrow> True | Some y \<Rightarrow> length (utterances y) \<le> 1)"

text \<open>A browser with both speech capabilities, and a response of the expected shape.\<close>

definition scenario_window :: window where
  "scenario_window =
     \<lparr>hasSpeechRecognition = True, hasSpeechSynthesis = True, VITE_GEMINI_API_KEY = Some (js ''key'')\<rparr>"

definition gemini_response :: "jsval \<Rightarrow> jsval" where
  "gemini_response t =
     JObj [(js ''candidates'',
       JArr [JObj [(js ''content'', JObj [(js ''parts'', JArr [JObj [(js ''text'', t)]])])]])]"

section \<open>Basic facts\<close>

lemma js_simps [simp]: "js [] = []" "js (c # cs) = word_of_nat (of_char c) # js cs"
  by (simp_all add: js_def)

lemma posted_append [simp]: "posted (xs @ ys) = posted xs @ posted ys"
  by (induction xs rule: posted.induct) simp_all

lemma dropWhile_all: "(\<forall>x\<in>set (dropWhile P xs). P x) \<longleftrightarrow> (\<forall>x\<in>set xs. P x)"
  by (induction xs) auto

lemma trim_Nil_iff: "trim s = [] \<longleftrightarrow> list_all isWhiteSpace s"
  by (simp add: trim_def list_all_iff dropWhile_all)

lemma sendMessage_fields:
  assumes "trim (input s) \<noteq> []" "\<not> loading s"
  shows "messages (sendMessage s) = messages s @ [\<lparr>role = js ''user'', content = JStr (trim (input s))\<rparr>]"
    and "input (sendMessage s) = []"
    and "loading (sendMessage s)"
    and "inflight (sendMessage s) =
           inflight s @ [\<lparr>newMessages = messages s @ [\<lparr>role = js ''user'', content = JStr (trim (input s))\<rparr>]\<rparr>]"
    and "posted (effects (sendMessage s)) =
           posted (effects s) @ [(request_url (GEMINI_API_KEY s), request_body (trim (input s)))]"
    and "speechSynthesisRef (sendMessage s) = speechSynthesisRef s"
    and "isSpeaking (sendMessage s) = isSpeaking s"
  using assms
  by (auto simp: sendMessage_def toggleListening_def axios_post_def Let_def split: option.splits)

lemma speakText_fields [simp]:
  "messages (speakText t s) = messages s"
  "input (speakText t s) = input s"
  "loading (speakText t s) = loading s"
  "inflight (speakText t s) = inflight s"
  "posted (effects (speakText t s)) = posted (effects s)"
  by (auto simp: speakText_def Let_def split: option.splits)

lemma speakText_synth:
  "speechSynthesisRef s = Some y \<Longrightarrow>
     speechSynthesisRef (speakText t s) = Some (y\<lparr>utterances := [SpeechSynthesisUtterance t]\<rparr>) \<and>
     isSpeaking (speakText t s)"
  by (auto simp: speakText_def Let_def speaking_def cancel_def speak_def)

lemma settle_resolved:
  assumes "inflight s = p # ps" "200 \<le> st" "st < 300" "botResponse d = JStr t"
  shows "settle (Response st d) s =
           sendMessage_finally (speakText (stripMarkdown t)
             (s\<lparr>inflight := ps, messages := newMessages p @ [\<lparr>role = js ''assistant'', content = JStr t\<rparr>]\<rparr>))"
  using assms
  by (simp add: settle_def axios_settle_def sendMessage_resume_def sendMessage_try_def Let_def)

lemma settle_rejected:
  assumes "inflight s = p # ps" "axios_settle t = Rejected e"
  shows "settle t s =
           sendMessage_finally (sendMessage_catch (newMessages p) e (s\<lparr>inflight := ps\<rparr>))"
  using assms
  by (simp add: settle_def sendMessage_resume_def sendMessage_try_def)

lemma settle_not_string:
  assumes "inflight s = p # ps" "axios_settle t = Resolved d" "\<forall>x. botResponse d \<noteq> JStr x"
  shows "settle t s =
           sendMessage_finally (sendMessage_catch (newMessages p) TypeError
             (s\<lparr>inflight := ps, messages := newMessages p @ [\<lparr>role = js ''assistant'', content = botResponse d\<rparr>]\<rparr>))"
  using assms
  by (cases "botResponse d")
     (simp_all add: settle_def sendMessage_resume_def sendMessage_try_def Let_def)

lemma catch_fields:
  "messages (sendMessage_finally (sendMessage_catch msgs e s)) =
     msgs @ [\<lparr>role = js ''assistant'', content = JStr errorMessage\<rparr>]"
  "loading (sendMessage_finally (sendMessage_catch msgs e s)) = False"
  "input (sendMessage_finally (sendMessage_catch msgs e s)) = input s"
  "inflight (sendMessage_finally (sendMessage_catch msgs e s)) = inflight s"
  by (simp_all add: sendMessage_finally_def sendMessage_catch_def)

lemma catch_speaks:
  "speechSynthesisRef s = Some y \<Longrightarrow>
   speechSynthesisRef (sendMessage_finally (sendMessage_catch msgs e s)) =
     Some (y\<lparr>utterances := [SpeechSynthesisUtterance errorMessage]\<rparr>) \<and>
   isSpeaking (sendMessage_finally (sendMessage_catch msgs e s))"
  "speechSynthesisRef s = None \<Longrightarrow>
   effects (sendMessage_finally (sendMessage_catch msgs e s)) =
     effects s @ [ConsoleError (js ''Gemini error:'') (LoggedExn e),
                  Alert (js ''Speech synthesis is not supported in your browser.'')]"
  by (simp_all add: sendMessage_finally_def sendMessage_catch_def speakText_def Let_def
        speaking_def cancel_def speak_def)

lemma transcripts_first:
  "\<forall>r\<in>set results. r \<noteq> [] \<Longrightarrow> transcripts results = Inr (map (\<lambda>r. transcript (hd r)) results)"
  by (induction results) (auto split: list.splits)

lemma settle_fields:
  assumes "inflight s = p # ps"
  shows "loading (settle t s) = False" and "inflight (settle t s) = ps"
proof -
  show "loading (settle t s) = False"
  proof (cases "axios_settle t")
    case (Rejected e)
    then show ?thesis using assms by (simp add: settle_rejected catch_fields)
  next
    case (Resolved d)
    then show ?thesis using assms
      by (cases "botResponse d")
         (simp_all add: settle_def sendMessage_resume_def sendMessage_try_def Let_def
            sendMessage_finally_def sendMessage_catch_def)
  qed
  show "inflight (settle t s) = ps"
  proof (cases "axios_settle t")
    case (Rejected e)
    then show ?thesis using assms by (simp add: settle_rejected catch_fields)
  next
    case (Resolved d)
    then show ?thesis using assms
      by (cases "botResponse d")
         (simp_all add: settle_def sendMessage_resume_def sendMessage_try_def Let_def
            sendMessage_finally_def sendMessage_catch_def)
  qed
qed

lemma settle_idle: "inflight s = [] \<Longrightarrow> settle t s = s"
  by (simp add: settle_def)

lemma sendMessage_request_inv: "request_inv s \<Longrightarrow> request_inv (sendMessage s)"
proof (cases "trim (input s) = [] \<or> loading s")
  case True
  assume "request_inv s"
  with True show ?thesis by (simp add: sendMessage_def)
next
  case False
  assume "request_inv s"
  with False show ?thesis by (simp add: request_inv_def sendMessage_fields)
qed

lemma settle_request_inv: "request_inv s \<Longrightarrow> request_inv (settle t s)"
proof (cases "inflight s")
  case Nil
  assume "request_inv s"
  with Nil show ?thesis by (simp add: settle_idle)
next
  case (Cons p ps)
  assume "request_inv s"
  with Cons show ?thesis by (simp add: request_inv_def settle_fields [OF Cons])
qed

lemma stopSpeaking_fields [simp]:
  "loading (stopSpeaking s) = loading s" "inflight (stopSpeaking s) = inflight s"
  by (simp_all add: stopSpeaking_def split: option.splits)

lemma clickSpeaker_fields [simp]:
  "loading (clickSpeaker i s) = loading s" "inflight (clickSpeaker i s) = inflight s"
  by (simp_all add: clickSpeaker_def split: jsval.splits)

lemma toggleListening_fields:
  "toggleListening s = Inr s' \<Longrightarrow>
     loading s' = loading s \<and> inflight s' = inflight s \<and> speechSynthesisRef s' = speechSynthesisRef s"
  by (auto simp: toggleListening_def split: option.splits if_splits sum.splits)

lemma onresult_fields:
  "onresult r s = Inr s' \<Longrightarrow>
     loading s' = loading s \<and> inflight s' = inflight s \<and> speechSynthesisRef s' = speechSynthesisRef s"
  by (auto simp: onresult_def split: sum.splits)

lemma step_request_inv: "request_inv s \<Longrightarrow> request_inv (step e s)"
proof (cases e)
  case (KeyPress k sh)
  assume "request_inv s"
  with KeyPress show ?thesis by (simp add: handleKeyPress_def sendMessage_request_inv)
next
  case ClickSend
  assume "request_inv s"
  with ClickSend show ?thesis by (simp add: sendMessage_request_inv)
next
  case ClickMic
  assume "request_inv s"
  with ClickMic show ?thesis
    by (auto simp: request_inv_def split: sum.splits dest: toggleListening_fields)
next
  case (RecognitionResult r)
  assume "request_inv s"
  with RecognitionResult show ?thesis
    by (auto simp: request_inv_def split: sum.splits dest: onresult_fields)
next
  case (Settled t)
  assume "request_inv s"
  with Settled show ?thesis by (simp add: settle_request_inv)
qed (auto simp: request_inv_def onerror_def utterance_onend_def split: option.splits)

lemma run_request_inv: "request_inv s \<Longrightarrow> request_inv (run es s)"
  unfolding run_def by (induction es arbitrary: s) (simp_all add: step_request_inv)

lemma mount_request_inv: "request_inv (mount w)"
  by (simp add: request_inv_def mount_def)

lemma extractText_gemini_response [simp]: "extractText (gemini_response t) = t"
  by (cases t) (simp_all add: extractText_def gemini_response_def optNamed_def optFirst_def nullish_def)

lemmas turn_defs =
  mount_def sendMessage_def trim_def isWhiteSpace_def toggleListening_def axios_post_def
  settle_def axios_settle_def sendMessage_resume_def sendMessage_try_def sendMessage_catch_def
  sendMessage_finally_def botResponse_def speakText_def speaking_def cancel_def speak_def
  stripMarkdown_def Let_def scenario_window_def

lemma recognition_stop_inactive: "\<not> started r \<Longrightarrow> recognition_stop r = r"
  by (simp add: recognition_stop_def)

lemma stopSpeaking_inactive:
  "\<forall>y. speechSynthesisRef s = Some y \<longrightarrow> \<not> speaking y \<Longrightarrow> stopSpeaking s = s"
  by (simp add: stopSpeaking_def split: option.splits)

lemma stopSpeaking_twice: "stopSpeaking (stopSpeaking s) = stopSpeaking s"
  by (simp add: stopSpeaking_def speaking_def cancel_def split: option.splits)

lemma cleanup_inactive:
  "\<forall>r. recognitionRef s = Some r \<longrightarrow> \<not> started r \<Longrightarrow>
   \<forall>y. speechSynthesisRef s = Some y \<longrightarrow> \<not> speaking y \<Longrightarrow> cleanup s = s"
  by (auto simp: cleanup_def recognition_stop_inactive split: option.splits)

lemma cleanup_twice: "cleanup (cleanup s) = cleanup s"
  by (auto simp: cleanup_def recognition_stop_def speaking_def cancel_def split: option.splits)

lemma speakText_synthesis_inv: "synthesis_inv (speakText t s)"
  by (simp add: synthesis_inv_def speakText_def Let_def speaking_def cancel_def speak_def
      split: option.splits)

lemma stopSpeaking_synthesis_inv: "synthesis_inv s \<Longrightarrow> synthesis_inv (stopSpeaking s)"
  by (simp add: synthesis_inv_def stopSpeaking_def cancel_def split: option.splits)

lemma sendMessage_synth: "speechSynthesisRef (sendMessage s) = speechSynthesisRef s"
  by (auto simp: sendMessage_def toggleListening_def axios_post_def Let_def split: option.splits)

lemma synthesis_inv_cong:
  "speechSynthesisRef s' = speechSynthesisRef s \<Longrightarrow> synthesis_inv s' = synthesis_inv s"
  by (simp add: synthesis_inv_def)

lemma finally_synthesis_inv [simp]: "synthesis_inv (sendMessage_finally s) = synthesis_inv s"
  by (simp add: synthesis_inv_def sendMessage_finally_def)

lemma settle_synthesis_inv: "synthesis_inv s \<Longrightarrow> synthesis_inv (settle t s)"
proof (cases "inflight s")
  case Nil
  assume "synthesis_inv s"
  with Nil show ?thesis by (simp add: settle_idle)
next
  case (Cons p ps)
  assume "synthesis_inv s"
  show ?thesis
  proof (cases "axios_settle t")
    case (Rejected e)
    then show ?thesis using Cons
      by (simp add: settle_rejected sendMessage_catch_def speakText_synthesis_inv)
  next
    case (Resolved d)
    then show ?thesis using Cons
      by (cases "botResponse d")
         (simp_all add: settle_def sendMessage_resume_def sendMessage_try_def Let_def
            sendMessage_catch_def speakText_synthesis_inv)
  qed
qed

lemma step_synthesis_inv: "synthesis_inv s \<Longrightarrow> synthesis_inv (step e s)"
proof (cases e)
  case (KeyPress k sh)
  assume "synthesis_inv s"
  with KeyPress show ?thesis
    by (simp add: handleKeyPress_def synthesis_inv_cong [OF sendMessage_synth])
next
  case ClickSend
  assume "synthesis_inv s"
  with ClickSend show ?thesis by (simp add: synthesis_inv_cong [OF sendMessage_synth])
next
  case ClickMic
  assume "synthesis_inv s"
  with ClickMic show ?thesis
    by (auto simp: synthesis_inv_def split: sum.splits dest: toggleListening_fields)
next
  case (ClickSpeaker i)
  assume "synthesis_inv s"
  with ClickSpeaker show ?thesis
    by (simp add: clickSpeaker_def speakText_synthesis_inv stopSpeaking_synthesis_inv
        split: jsval.splits)
next
  case (RecognitionResult r)
  assume "synthesis_inv s"
  with RecognitionResult show ?thesis
    by (auto simp: synthesis_inv_def split: sum.splits dest: onresult_fields)
next
  case UtteranceFinished
  assume "synthesis_inv s"
  with UtteranceFinished show ?thesis
    by (auto simp: synthesis_inv_def utterance_onend_def split: option.splits)
next
  case (Settled t)
  assume "synthesis_inv s"
  with Settled show ?thesis by (simp add: settle_synthesis_inv)
qed (auto simp: synthesis_inv_def onerror_def utterance_onend_def split: option.splits)

lemma run_synthesis_inv: "synthesis_inv s \<Longrightarrow> synthesis_inv (run es s)"
  unfolding run_def by (induction es arbitrary: s) (simp_all add: step_synthesis_inv)

lemma mount_synthesis_inv: "synthesis_inv (mount w)"
  by (simp add: synthesis_inv_def mount_def)

lemma toggleListening_loading:
  "loading (case toggleListening s of Inl e \<Rightarrow> s | Inr s' \<Rightarrow> s') = loading s"
  by (auto split: sum.splits dest: toggleListening_fields)

lemma onresult_loading:
  "loading (case onresult r s of Inl e \<Rightarrow> s | Inr s' \<Rightarrow> s') = loading s"
  by (auto split: sum.splits dest: onresult_fields)

lemma sendMessage_loading: "loading s \<Longrightarrow> loading (sendMessage s)"
  by (simp add: sendMessage_def)

lemma settle_loading: "loading (settle t s) \<Longrightarrow> loading s"
  by (cases "inflight s") (simp_all add: settle_idle settle_fields)

lemma loading_entered_by_submit:
  assumes "\<not> loading s" and "loading (step e s)"
  shows "e = ClickSend \<or> e = KeyPress (js ''Enter'') False"
proof (cases e)
  case (KeyPress k sh)
  with assms show ?thesis by (auto simp: handleKeyPress_def split: if_splits)
next
  case ClickMic
  with assms show ?thesis by (simp add: toggleListening_loading)
next
  case (RecognitionResult r)
  with assms show ?thesis by (simp add: onresult_loading)
next
  case (Settled t)
  with assms show ?thesis by (auto dest: settle_loading)
next
  case UtteranceFinished
  with assms show ?thesis by (auto simp: utterance_onend_def split: option.splits if_splits)
qed (use assms in \<open>auto simp: onerror_def utterance_onend_def\<close>)

lemma loading_left_by_settle:
  assumes "loading s" and "\<not> loading (step e s)"
  shows "\<exists>t. e = Settled t"
proof (cases e)
  case (KeyPress k sh)
  with assms show ?thesis by (auto simp: handleKeyPress_def sendMessage_loading split: if_splits)
next
  case ClickSend
  with assms show ?thesis by (simp add: sendMessage_loading)
next
  case ClickMic
  with assms show ?thesis by (simp add: toggleListening_loading)
next
  case (RecognitionResult r)
  with assms show ?thesis by (simp add: onresult_loading)
next
  case UtteranceFinished
  with assms show ?thesis by (auto simp: utterance_onend_def split: option.splits if_splits)
qed (use assms in \<open>auto simp: onerror_def utterance_onend_def\<close>)

lemma settle_clears_loading: "request_inv s \<Longrightarrow> \<not> loading (settle t s)"
  by (cases "inflight s") (simp_all add: request_inv_def settle_idle settle_fields)

lemma toggleListening_stops: "isListening s \<Longrightarrow> \<exists>s'. toggleListening s = Inr s'"
  by (simp add: toggleListening_def split: option.splits)

lemma sendMessage_posts_while_loading:
  assumes "trim (input s) \<noteq> []" and "\<not> loading s"
  shows "\<exists>s2. loading s2 \<and> inflight s2 = inflight s \<and>
           sendMessage s =
             axios_post (request_url (GEMINI_API_KEY s)) (request_body (trim (input s)))
               (messages s @ [\<lparr>role = js ''user'', content = JStr (trim (input s))\<rparr>]) s2"
proof -
  let ?msgs = "messages s @ [\<lparr>role = js ''user'', content = JStr (trim (input s))\<rparr>]"
  let ?s1 = "s\<lparr>messages := ?msgs, input := [], loading := True\<rparr>"
  have "\<exists>s2. (if isListening ?s1 then toggleListening ?s1 else Inr ?s1) = Inr s2"
    by (cases "isListening s") (simp_all add: toggleListening_stops)
  then obtain s2 where t: "(if isListening ?s1 then toggleListening ?s1 else Inr ?s1) = Inr s2"
    by blast
  then have k: "loading s2 \<and> inflight s2 = inflight s \<and> GEMINI_API_KEY s2 = GEMINI_API_KEY s"
    by (auto simp: toggleListening_def split: option.splits if_splits)
  have "sendMessage s = axios_post (request_url (GEMINI_API_KEY s2))
      (request_body (trim (input s))) ?msgs s2"
    using assms t by (simp add: sendMessage_def Let_def del: if_split cong: if_cong)
  with k show ?thesis by auto
qed

lemma truthy_not_nullish: "truthy v \<Longrightarrow> \<not> nullish v"
  by (cases v) (simp_all add: nullish_def)

lemma optNamed_nullish: "nullish v \<Longrightarrow> optNamed v k = JUndefined"
  by (simp add: optNamed_def)

lemma optFirst_nullish: "nullish v \<Longrightarrow> optFirst v = JUndefined"
  by (simp add: optFirst_def)

lemma nullish_undefined [simp]: "nullish JUndefined"
  by (simp add: nullish_def)

lemma extractText_absent:
  assumes "nullish data
         \<or> nullish (optNamed data (js ''candidates''))
         \<or> nullish (optFirst (optNamed data (js ''candidates'')))
         \<or> nullish (optNamed (optFirst (optNamed data (js ''candidates''))) (js ''content''))
         \<or> nullish (optNamed (optNamed (optFirst (optNamed data (js ''candidates''))) (js ''content''))
              (js ''parts''))
         \<or> nullish (optFirst (optNamed (optNamed (optFirst (optNamed data (js ''candidates'')))
              (js ''content'')) (js ''parts'')))"
  shows "extractText data = JUndefined"
  using assms unfolding extractText_def
  by (elim disjE) (simp_all only: optNamed_nullish optFirst_nullish nullish_undefined)

lemma botResponse_text: "extractText d = JStr t \<Longrightarrow> t \<noteq> [] \<Longrightarrow> botResponse d = JStr t"
  by (simp add: botResponse_def)

lemma botResponse_falsy: "\<not> truthy (extractText d) \<Longrightarrow> botResponse d = JStr noResponse"
  by (simp add: botResponse_def)

lemma try_completes:
  "botResponse d = JStr t \<Longrightarrow> fst (sendMessage_try msgs (Resolved d) s) = None"
  by (simp add: sendMessage_try_def Let_def)

lemma settle_resolved_messages:
  assumes "inflight s = p # ps" "200 \<le> st" "st < 300" "botResponse d = JStr t"
  shows "messages (settle (Response st d) s) =
           newMessages p @ [\<lparr>role = js ''assistant'', content = JStr t\<rparr>]"
  by (simp add: settle_resolved [OF assms] sendMessage_finally_def)

lemma sent_inflight:
  "inflight (sendMessage (step (Change (js ''hello'')) (mount scenario_window))) =
     [\<lparr>newMessages = [\<lparr>role = js ''user'', content = JStr (js ''hello'')\<rparr>]\<rparr>]"
  by (simp add: turn_defs)

lemma axios_settle_rejects:
  "t = NetworkError \<or> (\<exists>st d. t = Response st d \<and> (st < 200 \<or> 300 \<le> st)) \<Longrightarrow>
     \<exists>e. axios_settle t = Rejected e"
  by (auto simp: axios_settle_def)

lemma botResponse_not_string:
  "truthy (extractText d) \<Longrightarrow> \<forall>x. extractText d \<noteq> JStr x \<Longrightarrow> \<forall>x. botResponse d \<noteq> JStr x"
  by (simp add: botResponse_def)

lemma settle_failed:
  assumes "inflight s = p # ps"
    and "t = NetworkError
         \<or> (\<exists>st d. t = Response st d \<and> (st < 200 \<or> 300 \<le> st))
         \<or> (\<exists>st d. t = Response st d \<and> 200 \<le> st \<and> st < 300 \<and>
               truthy (extractText d) \<and> (\<forall>x. extractText d \<noteq> JStr x))"
  shows "\<exists>e s'. settle t s = sendMessage_finally (sendMessage_catch (newMessages p) e s') \<and>
           speechSynthesisRef s' = speechSynthesisRef s \<and> inflight s' = ps"
proof -
  consider (rej) e where "axios_settle t = Rejected e"
    | (shape) d where "axios_settle t = Resolved d" "\<forall>x. botResponse d \<noteq> JStr x"
    using assms(2) axios_settle_rejects [of t] botResponse_not_string
    by (auto simp: axios_settle_def)
  then show ?thesis
  proof cases
    case rej
    have "settle t s = sendMessage_finally (sendMessage_catch (newMessages p) e (s\<lparr>inflight := ps\<rparr>))"
      by (rule settle_rejected [OF assms(1) rej])
    then show ?thesis by force
  next
    case shape
    have "settle t s = sendMessage_finally (sendMessage_catch (newMessages p) TypeError
             (s\<lparr>inflight := ps, messages := newMessages p @ [\<lparr>role = js ''assistant'', content = botResponse d\<rparr>]\<rparr>))"
      by (rule settle_not_string [OF assms(1) shape])
    then show ?thesis by force
  qed
qed

lemma toggleListening_posted:
  "toggleListening s = Inr s' \<Longrightarrow> posted (effects s') = posted (effects s)"
  by (auto simp: toggleListening_def split: option.splits if_splits sum.splits)

lemma sendMessage_posted:
  "posted (effects (sendMessage s)) = posted (effects s) \<or>
   posted (effects (sendMessage s)) =
     posted (effects s) @ [(request_url (GEMINI_API_KEY s), request_body (trim (input s)))]"
proof (cases "trim (input s) = [] \<or> loading s")
  case True
  then show ?thesis by (simp add: sendMessage_def)
next
  case False
  then show ?thesis by (simp add: sendMessage_fields)
qed

lemma settle_posted: "posted (effects (settle t s)) = posted (effects s)"
proof (cases "inflight s")
  case Nil
  then show ?thesis by (simp add: settle_idle)
next
  case (Cons p ps)
  show ?thesis
  proof (cases "axios_settle t")
    case (Rejected e)
    then show ?thesis using Cons
      by (simp add: settle_rejected sendMessage_catch_def sendMessage_finally_def)
  next
    case (Resolved d)
    then show ?thesis using Cons
      by (cases "botResponse d")
         (simp_all add: settle_def sendMessage_resume_def sendMessage_try_def Let_def
            sendMessage_catch_def sendMessage_finally_def)
  qed
qed

lemma step_posted:
  "posted (effects (step e s)) = posted (effects s) \<or>
   posted (effects (step e s)) =
     posted (effects s) @ [(request_url (GEMINI_API_KEY s), request_body (trim (input s)))]"
proof (cases e)
  case (KeyPress k sh)
  then show ?thesis using sendMessage_posted [of s] by (simp add: handleKeyPress_def)
next
  case ClickSend
  then show ?thesis using sendMessage_posted [of s] by simp
next
  case ClickMic
  then show ?thesis by (auto split: sum.splits dest: toggleListening_posted)
next
  case (ClickSpeaker i)
  then show ?thesis by (simp add: clickSpeaker_def stopSpeaking_def split: jsval.splits option.splits)
next
  case (RecognitionResult r)
  then show ?thesis by (auto simp: onresult_def split: sum.splits)
next
  case (Settled t)
  then show ?thesis by (simp add: settle_posted)
qed (auto simp: onerror_def utterance_onend_def split: option.splits)

lemma run_posted:
  "\<forall>(url, body)\<in>set (posted (effects s)). \<exists>u. body = request_body u \<Longrightarrow>
   \<forall>(url, body)\<in>set (posted (effects (run es s))). \<exists>u. body = request_body u"
  unfolding run_def
proof (induction es arbitrary: s)
  case Nil
  then show ?case by simp
next
  case (Cons e es)
  have "\<forall>(url, body)\<in>set (posted (effects (step e s))). \<exists>u. body = request_body u"
    using step_posted [of e s] Cons.prems by auto
  then show ?case using Cons.IH by simp
qed

lemma mount_posted: "posted (effects (mount w)) = []"
  by (simp add: mount_def)

lemma last_dropWhile: "dropWhile P xs \<noteq> [] \<Longrightarrow> last (dropWhile P xs) = last xs"
  by (induction xs) (auto split: if_splits)

lemma dropWhile_rev_nonempty: "dropWhile P (rev xs) \<noteq> [] \<Longrightarrow> xs \<noteq> []"
  by (cases xs) simp_all

lemma trim_ends:
  assumes "trim s \<noteq> []"
  shows "\<not> isWhiteSpace (hd (trim s))" and "\<not> isWhiteSpace (last (trim s))"
proof -
  let ?a = "dropWhile isWhiteSpace s"
  let ?b = "dropWhile isWhiteSpace (rev ?a)"
  have b: "?b \<noteq> []" using assms by (simp add: trim_def)
  have a: "?a \<noteq> []" using b by (rule dropWhile_rev_nonempty)
  have "last ?b = last (rev ?a)" using b by (rule last_dropWhile)
  also have "\<dots> = hd ?a" using a by (simp add: last_rev)
  finally have "hd (trim s) = hd ?a" using b by (simp add: trim_def hd_rev)
  then show "\<not> isWhiteSpace (hd (trim s))" using a hd_dropWhile [of isWhiteSpace s] by simp
  have "last (trim s) = hd ?b" using b by (simp add: trim_def last_rev)
  then show "\<not> isWhiteSpace (last (trim s))" using b hd_dropWhile [of isWhiteSpace "rev ?a"] by simp
qed

lemma settle_input: "input (settle t s) = input s"
proof (cases "inflight s")
  case Nil
  then show ?thesis by (simp add: settle_idle)
next
  case (Cons p ps)
  show ?thesis
  proof (cases "axios_settle t")
    case (Rejected e)
    then show ?thesis using Cons by (simp add: settle_rejected catch_fields)
  next
    case (Resolved d)
    then show ?thesis using Cons
      by (cases "botResponse d")
         (simp_all add: settle_def sendMessage_resume_def sendMessage_try_def Let_def
            sendMessage_finally_def sendMessage_catch_def)
  qed
qed

section \<open>The properties of the specification\<close>

subsection \<open>A turn whose request resolves\<close>

text \<open>
  C1 (amended). A submit of input that is not blank, with no request in flight, whose
  request resolves with a 2xx status, appends exactly two messages: the user message with
  the trimmed input (which neither begins nor ends with white space), then one assistant
  message. The assistant content is the text of \<open>candidates[0].content.parts[0].text\<close>
  when that is a non-empty string, the placeholder when that value is absent or falsy
  (the empty string included), and the fixed error message when it is truthy and not a
  string. The input buffer is empty after the submit and at the end of the turn;
  \<open>loading\<close> is true in between and false at the end.
\<close>
theorem successful_turn:
  assumes "trim (input s) \<noteq> []" and "\<not> loading s" and "inflight s = []"
    and "200 \<le> st" and "st < 300"
  shows "(\<forall>t. extractText d = JStr t \<and> t \<noteq> [] \<longrightarrow>
            messages (settle (Response st d) (sendMessage s)) =
              messages s @ [\<lparr>role = js ''user'', content = JStr (trim (input s))\<rparr>,
                            \<lparr>role = js ''assistant'', content = JStr t\<rparr>])
         \<and> (\<not> truthy (extractText d) \<longrightarrow>
            messages (settle (Response st d) (sendMessage s)) =
              messages s @ [\<lparr>role = js ''user'', content = JStr (trim (input s))\<rparr>,
                            \<lparr>role = js ''assistant'', content = JStr noResponse\<rparr>])
         \<and> (truthy (extractText d) \<and> (\<forall>x. extractText d \<noteq> JStr x) \<longrightarrow>
            messages (settle (Response st d) (sendMessage s)) =
              messages s @ [\<lparr>role = js ''user'', content = JStr (trim (input s))\<rparr>,
                            \<lparr>role = js ''assistant'', content = JStr errorMessage\<rparr>])
         \<and> \<not> isWhiteSpace (hd (trim (input s)))
         \<and> \<not> isWhiteSpace (last (trim (input s)))
         \<and> input (sendMessage s) = []
         \<and> input (settle (Response st d) (sendMessage s)) = []
         \<and> loading (sendMessage s)
         \<and> \<not> loading (settle (Response st d) (sendMessage s))"
proof -
  let ?u = "\<lparr>role = js ''user'', content = JStr (trim (input s))\<rparr>"
  let ?s1 = "sendMessage s"
  have fl: "inflight ?s1 = \<lparr>newMessages = messages s @ [?u]\<rparr> # []"
    using assms(1-3) by (simp add: sendMessage_fields)
  have str: "messages (settle (Response st d) ?s1) =
               messages s @ [?u, \<lparr>role = js ''assistant'', content = JStr t\<rparr>]"
    if "botResponse d = JStr t" for t
    using settle_resolved_messages [OF fl assms(4,5) that] by simp
  have a: "\<forall>t. extractText d = JStr t \<and> t \<noteq> [] \<longrightarrow>
            messages (settle (Response st d) ?s1) =
              messages s @ [?u, \<lparr>role = js ''assistant'', content = JStr t\<rparr>]"
    using str botResponse_text by blast
  have b: "\<not> truthy (extractText d) \<longrightarrow>
            messages (settle (Response st d) ?s1) =
              messages s @ [?u, \<lparr>role = js ''assistant'', content = JStr noResponse\<rparr>]"
    using str botResponse_falsy by blast
  have c: "truthy (extractText d) \<and> (\<forall>x. extractText d \<noteq> JStr x) \<longrightarrow>
            messages (settle (Response st d) ?s1) =
              messages s @ [?u, \<lparr>role = js ''assistant'', content = JStr errorMessage\<rparr>]"
  proof
    assume h: "truthy (extractText d) \<and> (\<forall>x. extractText d \<noteq> JStr x)"
    have "Response st d = NetworkError
         \<or> (\<exists>st' d'. Response st d = Response st' d' \<and> (st' < 200 \<or> 300 \<le> st'))
         \<or> (\<exists>st' d'. Response st d = Response st' d' \<and> 200 \<le> st' \<and> st' < 300 \<and>
               truthy (extractText d') \<and> (\<forall>x. extractText d' \<noteq> JStr x))"
      using h assms(4,5) by simp
    from settle_failed [OF fl this]
    obtain e s' where "settle (Response st d) ?s1 =
        sendMessage_finally (sendMessage_catch (messages s @ [?u]) e s')"
      by auto
    then show "messages (settle (Response st d) ?s1) =
        messages s @ [?u, \<lparr>role = js ''assistant'', content = JStr errorMessage\<rparr>]"
      by (simp add: catch_fields)
  qed
  have e: "input ?s1 = []" "loading ?s1"
    using assms(1,2) by (simp_all add: sendMessage_fields)
  have f: "input (settle (Response st d) ?s1) = []"
    using e(1) by (simp add: settle_input)
  have g: "\<not> loading (settle (Response st d) ?s1)"
    using settle_fields(1) [OF fl] by simp
  show ?thesis
    using a b c trim_ends [OF assms(1)] e f g by blast
qed

theorem successful_turn_witness:
  "messages (settle (Response 200 (gemini_response (JStr (js ''Q3 growth was 12%.''))))
     (sendMessage (step (Change (js ''  What is our Q3 growth rate?  '')) (mount scenario_window)))) =
   [\<lparr>role = js ''user'', content = JStr (js ''What is our Q3 growth rate?'')\<rparr>,
    \<lparr>role = js ''assistant'', content = JStr (js ''Q3 growth was 12%.'')\<rparr>]
   \<and> \<not> loading (settle (Response 200 (gemini_response (JStr (js ''Q3 growth was 12%.''))))
     (sendMessage (step (Change (js ''  What is our Q3 growth rate?  '')) (mount scenario_window))))"
proof -
  let ?s = "step (Change (js ''  What is our Q3 growth rate?  '')) (mount scenario_window)"
  let ?d = "gemini_response (JStr (js ''Q3 growth was 12%.''))"
  have t: "trim (input ?s) = js ''What is our Q3 growth rate?''"
    by (simp add: trim_def isWhiteSpace_def)
  have h1: "trim (input ?s) \<noteq> []" unfolding t by simp
  have h2: "\<not> loading ?s" by (simp add: mount_def)
  have h3: "inflight ?s = []" by (simp add: mount_def)
  have m: "messages ?s = []" by (simp add: mount_def)
  from successful_turn [OF h1 h2 h3, of 200 ?d] show ?thesis
    unfolding t m by simp
qed

text \<open>
  As first stated, C1 has the extracted response text appended whenever the call
  succeeds. A 2xx response whose text is present and empty ends in the placeholder, and
  one whose text is the number 42 ends in the fixed error message.
\<close>
theorem successful_turn_counterexample:
  "axios_settle (Response 200 (gemini_response (JStr []))) = Resolved (gemini_response (JStr []))
   \<and> extractText (gemini_response (JStr [])) = JStr []
   \<and> messages (settle (Response 200 (gemini_response (JStr [])))
        (sendMessage (step (Change (js '' hi '')) (mount scenario_window)))) =
       [\<lparr>role = js ''user'', content = JStr (js ''hi'')\<rparr>,
        \<lparr>role = js ''assistant'', content = JStr noResponse\<rparr>]
   \<and> noResponse \<noteq> []
   \<and> axios_settle (Response 200 (gemini_response (JNum (Finite 42)))) =
       Resolved (gemini_response (JNum (Finite 42)))
   \<and> extractText (gemini_response (JNum (Finite 42))) = JNum (Finite 42)
   \<and> messages (settle (Response 200 (gemini_response (JNum (Finite 42))))
        (sendMessage (step (Change (js '' hi '')) (mount scenario_window)))) =
       [\<lparr>role = js ''user'', content = JStr (js ''hi'')\<rparr>,
        \<lparr>role = js ''assistant'', content = JStr errorMessage\<rparr>]"
  by (simp add: turn_defs noResponse_def)

subsection \<open>A failed turn\<close>

text \<open>
  C2 (amended). When the request fails in transport (no response, or a status outside
  200 to 299), or when the extracted text is a truthy value that is not a string, the
  turn appends the user message and then the fixed assistant message
  \<open>errorMessage\<close>, resets \<open>loading\<close>, and hands that message to \<open>speakText\<close>:
  with the synthesis capability present it becomes the only utterance of the queue.
\<close>
theorem failed_turn:
  assumes "trim (input s) \<noteq> []" and "\<not> loading s" and "inflight s = []"
    and "t = NetworkError
         \<or> (\<exists>st d. t = Response st d \<and> (st < 200 \<or> 300 \<le> st))
         \<or> (\<exists>st d. t = Response st d \<and> 200 \<le> st \<and> st < 300 \<and>
               truthy (extractText d) \<and> (\<forall>x. extractText d \<noteq> JStr x))"
  shows "messages (settle t (sendMessage s)) =
           messages s @ [\<lparr>role = js ''user'', content = JStr (trim (input s))\<rparr>,
                         \<lparr>role = js ''assistant'', content = JStr errorMessage\<rparr>]
         \<and> \<not> loading (settle t (sendMessage s))
         \<and> (\<forall>y. speechSynthesisRef s = Some y \<longrightarrow>
               speechSynthesisRef (settle t (sendMessage s)) =
                 Some (y\<lparr>utterances := [SpeechSynthesisUtterance errorMessage]\<rparr>)
               \<and> isSpeaking (settle t (sendMessage s)))"
proof -
  let ?u = "\<lparr>role = js ''user'', content = JStr (trim (input s))\<rparr>"
  have fl: "inflight (sendMessage s) = \<lparr>newMessages = messages s @ [?u]\<rparr> # []"
    using assms(1-3) by (simp add: sendMessage_fields)
  obtain e s' where st: "settle t (sendMessage s) =
        sendMessage_finally (sendMessage_catch (messages s @ [?u]) e s')"
      and sy: "speechSynthesisRef s' = speechSynthesisRef (sendMessage s)"
    using settle_failed [OF fl assms(4)] by auto
  have sy': "speechSynthesisRef s' = speechSynthesisRef s"
    using sy assms(1,2) by (simp add: sendMessage_fields)
  show ?thesis
    unfolding st using catch_speaks(1) [of s' _ "messages s @ [?u]" e] sy'
    by (simp add: catch_fields)
qed

theorem failed_turn_witness:
  "messages (settle NetworkError
      (sendMessage (step (Change (js ''Forecast next quarter'')) (mount scenario_window)))) =
     [\<lparr>role = js ''user'', content = JStr (js ''Forecast next quarter'')\<rparr>,
      \<lparr>role = js ''assistant'', content = JStr errorMessage\<rparr>]
   \<and> messages (settle (Response 200 (gemini_response (JNum (Finite 42))))
      (sendMessage (step (Change (js ''Forecast next quarter'')) (mount scenario_window)))) =
     [\<lparr>role = js ''user'', content = JStr (js ''Forecast next quarter'')\<rparr>,
      \<lparr>role = js ''assistant'', content = JStr errorMessage\<rparr>]"
proof -
  let ?s = "step (Change (js ''Forecast next quarter'')) (mount scenario_window)"
  have t: "trim (input ?s) = js ''Forecast next quarter''"
    by (simp add: trim_def isWhiteSpace_def)
  have h1: "trim (input ?s) \<noteq> []" unfolding t by simp
  have h2: "\<not> loading ?s" by (simp add: mount_def)
  have h3: "inflight ?s = []" by (simp add: mount_def)
  have m: "messages ?s = []" by (simp add: mount_def)
  have a: "messages (settle NetworkError (sendMessage ?s)) =
     [\<lparr>role = js ''user'', content = JStr (js ''Forecast next quarter'')\<rparr>,
      \<lparr>role = js ''assistant'', content = JStr errorMessage\<rparr>]"
    using failed_turn [OF h1 h2 h3, of NetworkError] unfolding t m by simp
  have b: "messages (settle (Response 200 (gemini_response (JNum (Finite 42)))) (sendMessage ?s)) =
     [\<lparr>role = js ''user'', content = JStr (js ''Forecast next quarter'')\<rparr>,
      \<lparr>role = js ''assistant'', content = JStr errorMessage\<rparr>]"
    using failed_turn [OF h1 h2 h3, of "Response 200 (gemini_response (JNum (Finite 42)))"]
    unfolding t m by simp
  show ?thesis using a b by blast
qed

text \<open>
  As first stated, C2 has every response of a malformed shape end in the fixed message.
  A 2xx response with the body \<open>{}\<close> ends in the placeholder instead.
\<close>
theorem failed_turn_counterexample:
  "messages (settle (Response 200 (JObj []))
      (sendMessage (step (Change (js ''Forecast next quarter'')) (mount scenario_window)))) =
     [\<lparr>role = js ''user'', content = JStr (js ''Forecast next quarter'')\<rparr>,
      \<lparr>role = js ''assistant'', content = JStr noResponse\<rparr>]
   \<and> noResponse \<noteq> errorMessage"
  by (simp add: turn_defs extractText_def optNamed_def optFirst_def nullish_def
        noResponse_def errorMessage_def)

subsection \<open>Submits that do nothing\<close>

text \<open>
  C3. When the input is empty or consists of white space only, or when \<open>loading\<close> is
  already true, \<open>sendMessage\<close> returns the state it was given: messages, input, flags,
  requests in flight and the trace of effects (so no HTTP request) are all unchanged.
\<close>
theorem sendMessage_noop:
  "list_all isWhiteSpace (input s) \<or> loading s \<Longrightarrow> sendMessage s = s"
  by (auto simp: sendMessage_def trim_Nil_iff)

theorem sendMessage_noop_witness:
  "sendMessage (step (Change (js ''   '')) (mount scenario_window)) =
     step (Change (js ''   '')) (mount scenario_window)
   \<and> sendMessage (sendMessage (step (Change (js ''hello'')) (mount scenario_window))) =
     sendMessage (step (Change (js ''hello'')) (mount scenario_window))"
proof -
  have a: "list_all isWhiteSpace (input (step (Change (js ''   '')) (mount scenario_window)))"
    by (simp add: isWhiteSpace_def)
  have b: "loading (sendMessage (step (Change (js ''hello'')) (mount scenario_window)))"
    by (simp add: turn_defs)
  show ?thesis
    using sendMessage_noop [of "step (Change (js ''   '')) (mount scenario_window)"]
      sendMessage_noop [of "sendMessage (step (Change (js ''hello'')) (mount scenario_window))"]
      a b by simp
qed

subsection \<open>One request in flight\<close>

text \<open>
  C4. In every state reached from mount at most one request is in flight and \<open>loading\<close>
  is true exactly while one is; \<open>loading\<close> turns true only by a submit (the Send button or
  Enter without Shift) and false only when the request settles, which it does on every
  outcome; and the request is posted from a state in which \<open>loading\<close> is already true.
\<close>
theorem one_request_in_flight:
  assumes "s = run es (mount w)"
  shows "length (inflight s) \<le> 1
         \<and> (loading s \<longleftrightarrow> inflight s \<noteq> [])
         \<and> (\<forall>e. \<not> loading s \<and> loading (step e s) \<longrightarrow> e = ClickSend \<or> e = KeyPress (js ''Enter'') False)
         \<and> (\<forall>e. loading s \<and> \<not> loading (step e s) \<longrightarrow> (\<exists>t. e = Settled t))
         \<and> (\<forall>t. \<not> loading (step (Settled t) s))
         \<and> (trim (input s) \<noteq> [] \<and> \<not> loading s \<longrightarrow>
              (\<exists>s2. loading s2 \<and> inflight s2 = [] \<and>
                 sendMessage s =
                   axios_post (request_url (GEMINI_API_KEY s)) (request_body (trim (input s)))
                     (messages s @ [\<lparr>role = js ''user'', content = JStr (trim (input s))\<rparr>]) s2))"
proof -
  have inv: "request_inv s"
    unfolding assms by (rule run_request_inv [OF mount_request_inv])
  have a: "length (inflight s) \<le> 1" and b: "loading s \<longleftrightarrow> inflight s \<noteq> []"
    using inv by (simp_all add: request_inv_def)
  have c: "\<forall>e. \<not> loading s \<and> loading (step e s) \<longrightarrow> e = ClickSend \<or> e = KeyPress (js ''Enter'') False"
    using loading_entered_by_submit by blast
  have d: "\<forall>e. loading s \<and> \<not> loading (step e s) \<longrightarrow> (\<exists>t. e = Settled t)"
    using loading_left_by_settle by blast
  have e: "\<forall>t. \<not> loading (step (Settled t) s)"
    using settle_clears_loading [OF inv] by simp
  have f: "trim (input s) \<noteq> [] \<and> \<not> loading s \<longrightarrow>
              (\<exists>s2. loading s2 \<and> inflight s2 = [] \<and>
                 sendMessage s =
                   axios_post (request_url (GEMINI_API_KEY s)) (request_body (trim (input s)))
                     (messages s @ [\<lparr>role = js ''user'', content = JStr (trim (input s))\<rparr>]) s2)"
    using sendMessage_posts_while_loading [of s] b by auto
  show ?thesis using a b c d e f by blast
qed

theorem one_request_in_flight_witness:
  "length (inflight (run [Change (js ''hello''), ClickSend, ClickSend] (mount scenario_window))) \<le> 1
   \<and> loading (run [Change (js ''hello''), ClickSend, ClickSend] (mount scenario_window))
   \<and> \<not> loading (step (Settled NetworkError)
         (run [Change (js ''hello''), ClickSend, ClickSend] (mount scenario_window)))"
proof -
  have a: "inflight (run [Change (js ''hello''), ClickSend, ClickSend] (mount scenario_window)) \<noteq> []"
    by (simp add: run_def turn_defs)
  show ?thesis
    using one_request_in_flight
      [of "run [Change (js ''hello''), ClickSend, ClickSend] (mount scenario_window)"
          "[Change (js ''hello''), ClickSend, ClickSend]" scenario_window] a
    by blast
qed

subsection \<open>The request body\<close>

text \<open>
  C5. The submit of input that is not blank issues exactly one request, whose body is
  \<open>{contents: [{role: "user", parts: [{text: SYSTEM_PROMPT + "\n\n" + userMessage + " "}]}]}\<close>
  with the trimmed input as \<open>userMessage\<close>; the request is the same whatever the
  message history is, and every request issued on the way from mount has a body of this
  form.
\<close>
theorem request_body_exact:
  assumes "trim (input s) \<noteq> []" and "\<not> loading s"
  shows "posted (effects (sendMessage s)) =
           posted (effects s) @
           [(request_url (GEMINI_API_KEY s),
             JObj [(js ''contents'',
               JArr [JObj [(js ''role'', JStr (js ''user'')),
                           (js ''parts'',
                              JArr [JObj [(js ''text'',
                                JStr (SYSTEM_PROMPT @ [0x0A, 0x0A] @ trim (input s) @ js '' ''))]])]])])]
         \<and> posted (effects (sendMessage (s\<lparr>messages := history\<rparr>))) = posted (effects (sendMessage s))
         \<and> (\<forall>(url, body)\<in>set (posted (effects (run es (mount w)))). \<exists>u. body = request_body u)"
proof -
  have "\<forall>(url, body)\<in>set (posted (effects (run es (mount w)))). \<exists>u. body = request_body u"
    by (rule run_posted) (simp add: mount_posted)
  then show ?thesis using assms by (simp add: sendMessage_fields request_body_def)
qed

theorem request_body_exact_witness:
  "posted (effects (sendMessage (step (Change (js '' Forecast next quarter '')) (mount scenario_window)))) =
     [(request_url (Some (js ''key'')),
       JObj [(js ''contents'',
         JArr [JObj [(js ''role'', JStr (js ''user'')),
                     (js ''parts'',
                        JArr [JObj [(js ''text'',
                          JStr (SYSTEM_PROMPT @ [0x0A, 0x0A] @ js ''Forecast next quarter'' @ js '' ''))]])]])])]"
proof -
  let ?s = "step (Change (js '' Forecast next quarter '')) (mount scenario_window)"
  have t: "trim (input ?s) = js ''Forecast next quarter''"
    by (simp add: trim_def isWhiteSpace_def)
  have h1: "trim (input ?s) \<noteq> []" unfolding t by simp
  have h2: "\<not> loading ?s" by (simp add: mount_def)
  have e: "effects ?s = []" "GEMINI_API_KEY ?s = Some (js ''key'')"
    by (simp_all add: mount_def scenario_window_def)
  from request_body_exact [OF h1 h2] show ?thesis
    unfolding t e by simp
qed

subsection \<open>Extraction of the response text\<close>

text \<open>
  C6 (amended). For a response that arrives with a 2xx status: when
  \<open>candidates[0].content.parts[0].text\<close> is a non-empty string, the assistant content
  appended is that text; when the extracted value is falsy, as it is whenever a field of
  the chain is absent (and also for an empty text), the placeholder is appended instead.
  In both cases the \<open>try\<close> block completes: the failure path is not taken.
\<close>
theorem response_extraction:
  assumes "inflight s = p # ps" and "200 \<le> st" and "st < 300"
  shows "(\<forall>t. extractText d = JStr t \<and> t \<noteq> [] \<longrightarrow>
            messages (settle (Response st d) s) =
              newMessages p @ [\<lparr>role = js ''assistant'', content = JStr t\<rparr>]
            \<and> fst (sendMessage_try (newMessages p) (Resolved d) (s\<lparr>inflight := ps\<rparr>)) = None)
         \<and> (\<not> truthy (extractText d) \<longrightarrow>
            messages (settle (Response st d) s) =
              newMessages p @ [\<lparr>role = js ''assistant'', content = JStr noResponse\<rparr>]
            \<and> fst (sendMessage_try (newMessages p) (Resolved d) (s\<lparr>inflight := ps\<rparr>)) = None)
         \<and> (nullish d
            \<or> nullish (optNamed d (js ''candidates''))
            \<or> nullish (optFirst (optNamed d (js ''candidates'')))
            \<or> nullish (optNamed (optFirst (optNamed d (js ''candidates''))) (js ''content''))
            \<or> nullish (optNamed (optNamed (optFirst (optNamed d (js ''candidates''))) (js ''content''))
                 (js ''parts''))
            \<or> nullish (optFirst (optNamed (optNamed (optFirst (optNamed d (js ''candidates'')))
                 (js ''content'')) (js ''parts'')))
            \<or> nullish (extractText d)
            \<longrightarrow> \<not> truthy (extractText d))"
proof (intro conjI allI impI)
  fix t assume h: "extractText d = JStr t \<and> t \<noteq> []"
  then have b: "botResponse d = JStr t" by (simp add: botResponse_text)
  show "messages (settle (Response st d) s) =
          newMessages p @ [\<lparr>role = js ''assistant'', content = JStr t\<rparr>]"
    by (rule settle_resolved_messages [OF assms b])
  show "fst (sendMessage_try (newMessages p) (Resolved d) (s\<lparr>inflight := ps\<rparr>)) = None"
    by (rule try_completes [OF b])
next
  assume h: "\<not> truthy (extractText d)"
  then have b: "botResponse d = JStr noResponse" by (rule botResponse_falsy)
  show "messages (settle (Response st d) s) =
          newMessages p @ [\<lparr>role = js ''assistant'', content = JStr noResponse\<rparr>]"
    by (rule settle_resolved_messages [OF assms b])
  show "fst (sendMessage_try (newMessages p) (Resolved d) (s\<lparr>inflight := ps\<rparr>)) = None"
    by (rule try_completes [OF b])
next
  assume "nullish d
            \<or> nullish (optNamed d (js ''candidates''))
            \<or> nullish (optFirst (optNamed d (js ''candidates'')))
            \<or> nullish (optNamed (optFirst (optNamed d (js ''candidates''))) (js ''content''))
            \<or> nullish (optNamed (optNamed (optFirst (optNamed d (js ''candidates''))) (js ''content''))
                 (js ''parts''))
            \<or> nullish (optFirst (optNamed (optNamed (optFirst (optNamed d (js ''candidates'')))
                 (js ''content'')) (js ''parts'')))
            \<or> nullish (extractText d)"
  then have "nullish (extractText d)"
    using extractText_absent [of d] by auto
  then show "\<not> truthy (extractText d)"
    using truthy_not_nullish by blast
qed

theorem response_extraction_witness:
  "messages (settle (Response 200 (gemini_response (JStr (js ''Grow.''))))
      (sendMessage (step (Change (js ''hello'')) (mount scenario_window)))) =
     [\<lparr>role = js ''user'', content = JStr (js ''hello'')\<rparr>,
      \<lparr>role = js ''assistant'', content = JStr (js ''Grow.'')\<rparr>]
   \<and> messages (settle (Response 200 (JObj []))
      (sendMessage (step (Change (js ''hello'')) (mount scenario_window)))) =
     [\<lparr>role = js ''user'', content = JStr (js ''hello'')\<rparr>,
      \<lparr>role = js ''assistant'', content = JStr noResponse\<rparr>]"
proof -
  have a: "\<not> truthy (extractText (JObj []))"
    by (simp add: extractText_def optNamed_def optFirst_def nullish_def)
  show ?thesis
    using response_extraction [OF sent_inflight, of 200 "gemini_response (JStr (js ''Grow.''))"]
      response_extraction [OF sent_inflight, of 200 "JObj []"] a
    by simp
qed

text \<open>
  As first stated, C6 has the text of the first part appended whenever it is present.
  A text that is present and empty is not appended: the placeholder is.
\<close>
theorem response_extraction_counterexample:
  "extractText (gemini_response (JStr [])) = JStr []
   \<and> messages (settle (Response 200 (gemini_response (JStr [])))
        (sendMessage (step (Change (js ''hello'')) (mount scenario_window)))) =
       [\<lparr>role = js ''user'', content = JStr (js ''hello'')\<rparr>,
        \<lparr>role = js ''assistant'', content = JStr noResponse\<rparr>]
   \<and> noResponse \<noteq> []"
  by (simp add: turn_defs noResponse_def)

subsection \<open>Recognition results overwrite the input\<close>

text \<open>
  C7. A recognition result event whose results each have a first alternative sets the
  input buffer to the concatenation, in order and without separator, of the first
  alternatives' transcripts, whatever the buffer held; after two such events the buffer
  is the transcript of the second.
\<close>
theorem onresult_overwrites:
  assumes "\<forall>r\<in>set results1. r \<noteq> []" and "\<forall>r\<in>set results2. r \<noteq> []"
  shows "onresult results2 s = Inr (s\<lparr>input := concat (map (\<lambda>r. transcript (hd r)) results2)\<rparr>)
         \<and> input (step (RecognitionResult results2) (step (RecognitionResult results1) s)) =
             concat (map (\<lambda>r. transcript (hd r)) results2)"
  using assms by (simp add: onresult_def transcripts_first)

theorem onresult_overwrites_witness:
  "input (step (RecognitionResult
       [[\<lparr>transcript = js ''Show me'', confidence = 9/10\<rparr>],
        [\<lparr>transcript = js '' sales trends'', confidence = 1/2\<rparr>]])
     (step (RecognitionResult [[\<lparr>transcript = js ''Show me'', confidence = 1/2\<rparr>]])
       (mount scenario_window))) = js ''Show me sales trends''"
  using onresult_overwrites
    [of "[[\<lparr>transcript = js ''Show me'', confidence = 1/2\<rparr>]]"
        "[[\<lparr>transcript = js ''Show me'', confidence = 9/10\<rparr>],
          [\<lparr>transcript = js '' sales trends'', confidence = 1/2\<rparr>]]"
        "mount scenario_window"]
  by simp

subsection \<open>One utterance at a time\<close>

text \<open>
  C8. With the synthesis capability present, \<open>speakText\<close> leaves the new utterance as
  the only one in the queue (whatever was playing is cancelled first) and sets
  \<open>isSpeaking\<close>; in every state reached from mount the queue holds at most one utterance.
\<close>
theorem speakText_single_utterance:
  "(\<forall>y. speechSynthesisRef s = Some y \<longrightarrow>
      speechSynthesisRef (speakText t s) = Some (y\<lparr>utterances := [SpeechSynthesisUtterance t]\<rparr>) \<and>
      isSpeaking (speakText t s))
   \<and> (\<forall>y. speechSynthesisRef (run es (mount w)) = Some y \<longrightarrow> length (utterances y) \<le> 1)"
proof -
  have "synthesis_inv (run es (mount w))"
    by (rule run_synthesis_inv [OF mount_synthesis_inv])
  then have "\<forall>y. speechSynthesisRef (run es (mount w)) = Some y \<longrightarrow> length (utterances y) \<le> 1"
    by (simp add: synthesis_inv_def split: option.splits)
  then show ?thesis using speakText_synth [of s _ t] by blast
qed

theorem speakText_single_utterance_witness:
  "speechSynthesisRef (speakText (js ''second'') (speakText (js ''first'') (mount scenario_window))) =
     Some \<lparr>utterances = [SpeechSynthesisUtterance (js ''second'')]\<rparr>
   \<and> isSpeaking (speakText (js ''second'') (speakText (js ''first'') (mount scenario_window)))"
proof -
  have a: "speechSynthesisRef (speakText (js ''first'') (mount scenario_window)) =
      Some \<lparr>utterances = [SpeechSynthesisUtterance (js ''first'')]\<rparr>"
    by (simp add: turn_defs)
  show ?thesis
    using speakText_single_utterance
      [of "speakText (js ''first'') (mount scenario_window)" "js ''second''" "[]" scenario_window] a
    by simp
qed

subsection \<open>Stopping is idempotent\<close>

text \<open>
  C9. \<open>stopSpeaking\<close> leaves the whole state unchanged when no utterance is active, and
  calling it twice equals calling it once; the same holds of the unmount cleanup, which
  changes nothing when recognition is not started and nothing is spoken. Neither has a
  path that throws.
\<close>
theorem stopSpeaking_idempotent:
  "((\<forall>y. speechSynthesisRef s = Some y \<longrightarrow> \<not> speaking y) \<longrightarrow> stopSpeaking s = s)
   \<and> stopSpeaking (stopSpeaking s) = stopSpeaking s
   \<and> ((\<forall>r. recognitionRef s = Some r \<longrightarrow> \<not> started r) \<and>
       (\<forall>y. speechSynthesisRef s = Some y \<longrightarrow> \<not> speaking y) \<longrightarrow> cleanup s = s)
   \<and> cleanup (cleanup s) = cleanup s"
  using stopSpeaking_inactive [of s] stopSpeaking_twice [of s] cleanup_inactive [of s]
    cleanup_twice [of s] by blast

theorem stopSpeaking_idempotent_witness:
  "stopSpeaking (mount scenario_window) = mount scenario_window
   \<and> cleanup (mount scenario_window) = mount scenario_window"
proof -
  have a: "\<forall>y. speechSynthesisRef (mount scenario_window) = Some y \<longrightarrow> \<not> speaking y"
    by (simp add: mount_def scenario_window_def speaking_def)
  have b: "\<forall>r. recognitionRef (mount scenario_window) = Some r \<longrightarrow> \<not> started r"
    by (auto simp: mount_def scenario_window_def)
  show ?thesis using stopSpeaking_idempotent [of "mount scenario_window"] a b by blast
qed

subsection \<open>An empty text\<close>

text \<open>
  C10. When a 2xx response has \<open>candidates[0].content.parts[0].text\<close> present and equal
  to the empty string, the assistant content appended is the placeholder, not the empty
  string.
\<close>
theorem empty_text_placeholder:
  assumes "inflight s = p # ps" and "200 \<le> st" and "st < 300" and "extractText d = JStr []"
  shows "messages (settle (Response st d) s) =
           newMessages p @ [\<lparr>role = js ''assistant'', content = JStr noResponse\<rparr>]
         \<and> JStr noResponse \<noteq> extractText d"
proof -
  have "\<not> truthy (extractText d)" using assms(4) by simp
  then have b: "botResponse d = JStr noResponse" by (rule botResponse_falsy)
  show ?thesis
    using settle_resolved_messages [OF assms(1-3) b] assms(4) by (simp add: noResponse_def)
qed

theorem empty_text_placeholder_witness:
  "messages (settle (Response 200 (gemini_response (JStr (js ''''))))
      (sendMessage (step (Change (js ''hello'')) (mount scenario_window)))) =
     [\<lparr>role = js ''user'', content = JStr (js ''hello'')\<rparr>,
      \<lparr>role = js ''assistant'', content = JStr noResponse\<rparr>]"
  using empty_text_placeholder [OF sent_inflight, of 200 "gemini_response (JStr (js ''''))"]
  by simp

end
